theory Spec2Isabelle
  imports Complex_Main "HOL-Library.Multiset" "HOL-Library.Sublist"
begin

section \<open>Data model\<close>

text \<open>
  The exceptions the functions of \<open>mmu/utils.py\<close> raise; a function that can raise
  returns \<open>error + 'a\<close>, with \<open>Inl\<close> for the exception.
\<close>

datatype error = ValueError | KeyError | IndexError | AssertionError | PicklingError

text \<open>
  A sky position is the pair (ra, dec) a \<open>SkyCoord\<close> is built from. Coordinates are
  floats in the source and reals here. The angular separation of two positions is computed
  by the astronomy library; every function below takes it as its first argument
  \<open>separation\<close>, in the unit of the matching radius.
\<close>

type_synonym position = "real \<times> real"

type_synonym separation_fn = "position \<Rightarrow> position \<Rightarrow> real"

record sky_row =
  ra :: real
  dec :: real
  healpix :: int

text \<open>
  A row of the table \<open>get_catalog\<close> returns for its default keys. The object id is
  kept as the string \<open>str\<close> renders it to.
\<close>

record catalog_row = sky_row +
  object_id :: string

definition sc :: "'a sky_row_scheme \<Rightarrow> position" where
  "sc r = (ra r, dec r)"

section \<open>The spatial matcher\<close>

datatype sep2d = Finite real | PlusInfinity

fun sep_less :: "sep2d \<Rightarrow> real \<Rightarrow> bool" where
  "sep_less (Finite s) r = (s < r)"
| "sep_less PlusInfinity r = False"

text \<open>
  Modelled from the spec: \<open>match_to_catalog_sky\<close> is a routine of the astronomy
  library and is not among the sources. The spec's Spatial Matcher returns, for every
  query position, the index of the globally nearest reference position and the
  separation to it (brute force is its baseline; of several nearest positions the first
  is taken), and for an empty reference set reports no match, with separation
  \<open>+infinity\<close> and an index that carries no meaning (0 here).
\<close>

fun nearest_index :: "separation_fn \<Rightarrow> position \<Rightarrow> position list \<Rightarrow> nat" where
  "nearest_index d q [] = 0"
| "nearest_index d q (r # rs) =
     (if rs = [] then 0
      else let j = nearest_index d q rs
           in if d q r \<le> d q (rs ! j) then 0 else Suc j)"

definition nearest :: "separation_fn \<Rightarrow> position \<Rightarrow> position list \<Rightarrow> nat \<times> sep2d" where
  "nearest d q refs =
     (if refs = [] then (0, PlusInfinity)
      else (nearest_index d q refs, Finite (d q (refs ! nearest_index d q refs))))"

definition match_to_catalog_sky ::
  "separation_fn \<Rightarrow> position list \<Rightarrow> position list \<Rightarrow> (nat \<times> sep2d) list" where
  "match_to_catalog_sky d queries refs = map (\<lambda>q. nearest d q refs) queries"

section \<open>Table indexing\<close>

text \<open>\<open>t[mask]\<close> with a boolean mask of the table's length.\<close>

definition select_mask :: "bool list \<Rightarrow> 'a list \<Rightarrow> 'a list" where
  "select_mask msk xs = map snd (filter fst (zip msk xs))"

text \<open>\<open>t[idx]\<close> with an array of row numbers; a row number out of range raises.\<close>

definition take_rows :: "'a list \<Rightarrow> nat list \<Rightarrow> error + 'a list" where
  "take_rows xs idx =
     (if list_all (\<lambda>i. i < length xs) idx then Inr (map (nth xs) idx) else Inl IndexError)"

section \<open>cross_match_datasets\<close>

text \<open>
  A row of \<open>matched_catalog\<close>: the columns of both sides, which \<open>hstack\<close> prefixes
  with the two configuration names (taken to differ), and the four default columns added
  afterwards.
\<close>

record matched_row =
  left_row :: catalog_row
  right_row :: catalog_row
  m_object_id :: string
  m_ra :: real
  m_dec :: real
  m_healpix :: int

text \<open>What the function returns with \<open>return_catalog_only\<close>, and what it prints, in order.\<close>

record cross_match =
  matched_catalog :: "matched_row list"
  printed :: "int list"

definition threshold_mask ::
  "separation_fn \<Rightarrow> catalog_row list \<Rightarrow> catalog_row list \<Rightarrow> real \<Rightarrow> bool list" where
  "threshold_mask separation cat_left cat_right matching_radius =
     map (\<lambda>m. sep_less (snd m) matching_radius)
       (match_to_catalog_sky separation (map sc cat_left) (map sc cat_right))"

text \<open>\<open>cat_left[mask]\<close> and \<open>cat_right[idx[mask]]\<close>.\<close>

definition matched_left ::
  "separation_fn \<Rightarrow> catalog_row list \<Rightarrow> catalog_row list \<Rightarrow> real \<Rightarrow> catalog_row list" where
  "matched_left separation cat_left cat_right matching_radius =
     select_mask (threshold_mask separation cat_left cat_right matching_radius) cat_left"

definition matched_right ::
  "separation_fn \<Rightarrow> catalog_row list \<Rightarrow> catalog_row list \<Rightarrow> real \<Rightarrow> error + catalog_row list" where
  "matched_right separation cat_left cat_right matching_radius =
     take_rows cat_right
       (select_mask (threshold_mask separation cat_left cat_right matching_radius)
          (map fst (match_to_catalog_sky separation (map sc cat_left) (map sc cat_right))))"

text \<open>The rows of the stacked table whose two healpix columns agree.\<close>

definition same_healpix :: "catalog_row \<times> catalog_row \<Rightarrow> bool" where
  "same_healpix p = (healpix (fst p) = healpix (snd p))"

definition border_filter :: "(catalog_row \<times> catalog_row) list \<Rightarrow> (catalog_row \<times> catalog_row) list" where
  "border_filter stacked = filter same_healpix stacked"

definition default_columns :: "catalog_row \<times> catalog_row \<Rightarrow> matched_row" where
  "default_columns p =
     \<lparr>left_row = fst p, right_row = snd p,
      m_object_id = object_id (fst p),
      m_ra = 0.5 * (ra (fst p) + ra (snd p)),
      m_dec = 0.5 * (dec (fst p) + dec (snd p)),
      m_healpix = healpix (fst p)\<rparr>"

text \<open>\<open>group_by(['healpix'])\<close> orders the rows by the key, keeping ties in their order.\<close>

definition group_by :: "matched_row list \<Rightarrow> matched_row list" where
  "group_by rows = sort_key m_healpix rows"

definition cross_match_datasets ::
  "separation_fn \<Rightarrow> catalog_row list \<Rightarrow> catalog_row list \<Rightarrow> real \<Rightarrow> error + cross_match" where
  "cross_match_datasets separation cat_left cat_right matching_radius =
     (let sel_left = matched_left separation cat_left cat_right matching_radius
      in case matched_right separation cat_left cat_right matching_radius of
           Inl e \<Rightarrow> Inl e
         | Inr sel_right \<Rightarrow>
             if length sel_left \<noteq> length sel_right then Inl AssertionError
             else let kept = border_filter (zip sel_left sel_right)
                  in if \<not> list_all same_healpix kept then Inl AssertionError
                     else Inr \<lparr>matched_catalog = group_by (map default_columns kept),
                               printed = [int (length sel_left),
                                          int (length sel_left) - int (length kept),
                                          int (length kept)]\<rparr>)"

text \<open>
  The pairs the claims speak of, stated on the rows themselves: a left row is in radius when
  the separation the matcher reports for it is below the radius, and its neighbour is the
  reference index the matcher reports.
\<close>

definition in_radius ::
  "separation_fn \<Rightarrow> 'a sky_row_scheme list \<Rightarrow> real \<Rightarrow> 'b sky_row_scheme \<Rightarrow> bool" where
  "in_radius d R radius l = sep_less (snd (nearest d (sc l) (map sc R))) radius"

definition neighbour ::
  "separation_fn \<Rightarrow> 'a sky_row_scheme list \<Rightarrow> 'b sky_row_scheme \<Rightarrow> nat" where
  "neighbour d R l = fst (nearest d (sc l) (map sc R))"

definition nearest_pairs ::
  "separation_fn \<Rightarrow> catalog_row list \<Rightarrow> catalog_row list \<Rightarrow> real
     \<Rightarrow> (catalog_row \<times> catalog_row) list" where
  "nearest_pairs d L R radius =
     map (\<lambda>l. (l, R ! neighbour d R l)) (filter (in_radius d R radius) L)"

section \<open>build_master_catalog\<close>

text \<open>
  A row of \<open>master_cat\<close>. The flag column and the index column of each name are read and
  written by label, so each is a map from the names; the three groups of labels
  (coordinates, names, names with \<open>_idx\<close>) are taken to be disjoint. The final
  \<open>astype\<close> conversions only fix the types the values have here.
\<close>

record master_row = sky_row +
  name_data :: "string \<rightharpoonup> bool"
  name_idx_data :: "string \<rightharpoonup> int"

definition extract_cat_params :: "catalog_row list \<Rightarrow> sky_row list" where
  "extract_cat_params cat = map (\<lambda>r. \<lparr>ra = ra r, dec = dec r, healpix = healpix r\<rparr>) cat"

text \<open>
  \<open>master_cat.loc[mask, name] = True\<close> and \<open>master_cat.loc[mask, name + "_idx"] = idx[mask]\<close>,
  on one row with its entry of \<open>idx\<close> and of \<open>sep2d\<close>, and on the table.
\<close>

definition set_matching :: "string \<Rightarrow> real \<Rightarrow> master_row \<times> nat \<times> sep2d \<Rightarrow> master_row" where
  "set_matching name matching_radius rm =
     (if sep_less (snd (snd rm)) matching_radius
      then (fst rm)\<lparr>name_data := (name_data (fst rm))(name \<mapsto> True),
                    name_idx_data := (name_idx_data (fst rm))(name \<mapsto> int (fst (snd rm)))\<rparr>
      else fst rm)"

definition update_matching_columns ::
  "string \<Rightarrow> real \<Rightarrow> master_row list \<Rightarrow> (nat \<times> sep2d) list \<Rightarrow> master_row list" where
  "update_matching_columns name matching_radius master_cat m =
     map (set_matching name matching_radius) (zip master_cat m)"

text \<open>The mask of the rows of the catalogue that are already in the master catalogue.\<close>

definition known_mask ::
  "separation_fn \<Rightarrow> real \<Rightarrow> master_row list \<Rightarrow> sky_row list \<Rightarrow> bool list" where
  "known_mask separation matching_radius master_cat cat =
     (if length master_cat = 0 then replicate (length cat) False
      else map (\<lambda>m. sep_less (snd m) matching_radius)
             (match_to_catalog_sky separation (map sc cat) (map sc master_cat)))"

text \<open>One row of \<open>append_cat\<close>: the loop over \<open>names\<close> that fills \<open>name_data\<close> and \<open>name_idx_data\<close>.\<close>

definition new_row :: "string list \<Rightarrow> string \<Rightarrow> nat \<times> sky_row \<Rightarrow> master_row" where
  "new_row names name ir =
     \<lparr>ra = ra (snd ir), dec = dec (snd ir), healpix = healpix (snd ir),
      name_data = map_of (map (\<lambda>subname. (subname, if subname \<noteq> name then False else True)) names),
      name_idx_data =
        map_of (map (\<lambda>subname. (subname, if subname \<noteq> name then - 1 else int (fst ir))) names)\<rparr>"

definition append_cat :: "string list \<Rightarrow> string \<Rightarrow> bool list \<Rightarrow> sky_row list \<Rightarrow> master_row list" where
  "append_cat names name msk cat =
     map (new_row names name) (select_mask (map Not msk) (zip [0..<length cat] cat))"

text \<open>The body of the loop over \<open>zip(cats, names)\<close>.\<close>

definition fold_catalog ::
  "separation_fn \<Rightarrow> real \<Rightarrow> string list \<Rightarrow> master_row list \<Rightarrow> catalog_row list \<times> string
     \<Rightarrow> master_row list" where
  "fold_catalog separation matching_radius names master_cat cn =
     (let cat = extract_cat_params (fst cn);
          name = snd cn;
          m = match_to_catalog_sky separation (map sc master_cat) (map sc cat);
          updated = update_matching_columns name matching_radius master_cat m;
          msk = known_mask separation matching_radius updated cat
      in updated @ append_cat names name msk cat)"

definition build_master_catalog ::
  "separation_fn \<Rightarrow> catalog_row list list \<Rightarrow> string list \<Rightarrow> real \<Rightarrow> error + master_row list" where
  "build_master_catalog separation cats names matching_radius =
     (if length cats \<noteq> length names then Inl ValueError
      else Inr (foldl (fold_catalog separation matching_radius names) [] (zip cats names)))"

text \<open>The master catalogue after the first \<open>k\<close> rounds of the loop.\<close>

definition master_after ::
  "separation_fn \<Rightarrow> catalog_row list list \<Rightarrow> string list \<Rightarrow> real \<Rightarrow> nat \<Rightarrow> master_row list" where
  "master_after separation cats names matching_radius k =
     foldl (fold_catalog separation matching_radius names) [] (take k (zip cats names))"

text \<open>
  What the flag and the index of every name say of a row, given the catalogues folded so
  far with their names: the index is \<open>-1\<close> exactly when the flag is false, and else is a row
  number of a catalogue folded under that name.
\<close>

definition consistent :: "(catalog_row list \<times> string) list \<Rightarrow> string list \<Rightarrow> master_row \<Rightarrow> bool" where
  "consistent folded names row =
     list_all (\<lambda>s. case (name_data row s, name_idx_data row s) of
                     (Some present, Some idx) \<Rightarrow>
                       (idx = - 1) = (\<not> present)
                       \<and> (\<not> present
                          \<or> list_ex (\<lambda>cn. snd cn = s \<and> 0 \<le> idx \<and> idx < int (length (fst cn))) folded)
                   | _ \<Rightarrow> False) names"

section \<open>get_catalog\<close>

text \<open>
  The files \<open>h5py\<close> reads: a file that cannot be opened (\<open>OSError\<close>) is \<open>None\<close>, any
  other is the map from its dataset names to their columns. A table is the dictionary of
  its columns.
\<close>

type_synonym 'c table = "string \<rightharpoonup> 'c"

type_synonym 'c filesystem = "string \<Rightarrow> 'c table option"

text \<open>\<open>Table({k: get[k] for k in keys})\<close>; a key that is missing raises \<open>KeyError\<close>.\<close>

definition table_of :: "(string \<rightharpoonup> 'c) \<Rightarrow> string list \<Rightarrow> error + 'c table" where
  "table_of get keys =
     (if list_all (\<lambda>k. get k \<noteq> None) keys then Inr (get |` set keys) else Inl KeyError)"

text \<open>
  \<open>_file_to_catalog\<close> under its decorator \<open>safe_for_pool(exceptions=(OSError,))\<close>: the
  result is \<open>None\<close> where the file raised \<open>OSError\<close>.
\<close>

definition file_to_catalog ::
  "'c filesystem \<Rightarrow> string \<Rightarrow> string list \<Rightarrow> error + 'c table option" where
  "file_to_catalog fs filename keys =
     (case fs filename of
        None \<Rightarrow> Inr None
      | Some data \<Rightarrow>
          map_sum id Some
            (if ''object_id'' \<in> set keys then
               if data ''object_id'' \<noteq> None then table_of data keys
               else if data ''source_id'' \<noteq> None then
                 table_of (\<lambda>k. if k = ''object_id'' then data ''source_id'' else data k) keys
               else Inl KeyError
             else table_of data keys))"

text \<open>
  The qualified name of the function that the name \<open>_file_to_catalog\<close> is bound to.
  \<open>safe_for_pool\<close> returns \<open>decorator\<close>, and \<open>decorator\<close> returns its inner function
  \<open>safe_wrapper\<close> as it is: nothing copies the name of the decorated function onto it
  (there is no \<open>functools.wraps\<close>), so the function of the module that is called
  \<open>_file_to_catalog\<close> is a \<open>safe_wrapper\<close>, local to a call of \<open>decorator\<close>.
\<close>

definition file_to_catalog_qualname :: string where
  "file_to_catalog_qualname = ''safe_for_pool.<locals>.decorator.<locals>.safe_wrapper''"

text \<open>
  A function is pickled as its qualified name, to be looked up again where it is
  unpickled; a name that goes through the locals of a function cannot be looked up, and
  the pickler refuses it. \<open>partial(f, keys=keys)\<close> is pickled with its \<open>f\<close>.
\<close>

definition picklable :: "string \<Rightarrow> bool" where
  "picklable qualname = (\<not> sublist ''<locals>'' qualname)"

text \<open>The results of the calls in the order of the inputs, or the first exception.\<close>

fun map_in_order :: "('a \<Rightarrow> error + 'b) \<Rightarrow> 'a list \<Rightarrow> error + 'b list" where
  "map_in_order f [] = Inr []"
| "map_in_order f (x # xs) =
     (case f x of
        Inl e \<Rightarrow> Inl e
      | Inr y \<Rightarrow> (case map_in_order f xs of Inl e \<Rightarrow> Inl e | Inr ys \<Rightarrow> Inr (y # ys)))"

text \<open>
  \<open>Pool.map\<close> of the function of the given qualified name. With no input there is no
  task, and the result is the empty list. Otherwise the function is sent to the workers
  with the inputs, pickled: where it cannot be pickled the call raises (\<open>AttributeError\<close>
  or \<open>PicklingError\<close>, by the version of the interpreter; both are \<open>PicklingError\<close>
  here), and else the results come in the order of the inputs, or the exception of a
  worker is raised again.
\<close>

fun pool_map :: "string \<Rightarrow> ('a \<Rightarrow> error + 'b) \<Rightarrow> 'a list \<Rightarrow> error + 'b list" where
  "pool_map qualname f [] = Inr []"
| "pool_map qualname f (x # xs) =
     (if picklable qualname then map_in_order f (x # xs) else Inl PicklingError)"

text \<open>The loop of the branch \<open>num_proc \<le> 1\<close>, with the list \<open>catalogs\<close> it appends to.\<close>

fun read_files ::
  "'c filesystem \<Rightarrow> string list \<Rightarrow> string list \<Rightarrow> 'c table list \<Rightarrow> error + 'c table list" where
  "read_files fs keys [] catalogs = Inr catalogs"
| "read_files fs keys (filename # files) catalogs =
     (case file_to_catalog fs filename keys of
        Inl e \<Rightarrow> Inl e
      | Inr None \<Rightarrow> read_files fs keys files catalogs
      | Inr (Some catalog) \<Rightarrow> read_files fs keys files (catalogs @ [catalog]))"

text \<open>
  \<open>get_catalog\<close>. The builder is given by \<open>dset.config.data_files\<close>, the list of the
  splits with their files; \<open>vstack\<close> is the library's and is taken as a parameter. The
  branch \<open>num_proc > 1\<close> gives the pool the function \<open>partial(_file_to_catalog, keys=keys)\<close>.
\<close>

definition get_catalog ::
  "('c table list \<Rightarrow> error + 't) \<Rightarrow> 'c filesystem \<Rightarrow> (string \<times> string list) list
     \<Rightarrow> string list \<Rightarrow> string \<Rightarrow> int \<Rightarrow> error + 't" where
  "get_catalog vstack fs data_files keys split num_proc =
     (if data_files = [] then Inl ValueError
      else case map_of data_files split of
             None \<Rightarrow> Inl KeyError
           | Some files \<Rightarrow>
               (case (if num_proc > 1
                      then (case pool_map file_to_catalog_qualname
                                   (\<lambda>filename. file_to_catalog fs filename keys) files of
                              Inl e \<Rightarrow> Inl e
                            | Inr catalogs \<Rightarrow> Inr (map the (filter (\<lambda>c. c \<noteq> None) catalogs)))
                      else read_files fs keys files []) of
                  Inl e \<Rightarrow> Inl e
                | Inr catalogs \<Rightarrow> vstack catalogs))"

section \<open>Merging the two streams of examples\<close>

text \<open>An example is a dictionary, kept as the list of its items.\<close>

type_synonym 'v example = "(string \<times> 'v) list"

text \<open>
  The merge of two examples; the set \<open>all_keys\<close> is gone through in the order of the keys
  of the left example followed by the new keys of the right one.
\<close>

definition merge_example ::
  "string \<Rightarrow> string \<Rightarrow> 'v example \<Rightarrow> 'v example \<Rightarrow> (string \<rightharpoonup> 'v)" where
  "merge_example left_name right_name example_left example_right =
     foldl (\<lambda>merged_example key.
              case (map_of example_left key, map_of example_right key) of
                (Some a, Some b) \<Rightarrow>
                  merged_example(left_name @ ''_'' @ key \<mapsto> a, right_name @ ''_'' @ key \<mapsto> b)
              | (Some a, None) \<Rightarrow> merged_example(key \<mapsto> a)
              | (None, Some b) \<Rightarrow> merged_example(key \<mapsto> b)
              | (None, None) \<Rightarrow> merged_example)
       Map.empty
       (remdups (map fst example_left @ map fst example_right))"

text \<open>The two assertions inside the \<open>try\<close>: \<open>str(id) in left_id\<close> is containment of strings.\<close>

definition ids_found :: "matched_row \<Rightarrow> string \<Rightarrow> string \<Rightarrow> bool" where
  "ids_found row left_id right_id =
     (sublist (object_id (left_row row)) left_id \<and> sublist (object_id (right_row row)) right_id)"

text \<open>
  The state of the loop over one group: the counter, the examples yielded so far and the
  counts printed so far.
\<close>

record 'v merge_state =
  counter :: nat
  yielded :: "(string \<rightharpoonup> 'v) list"
  reported :: "nat list"

type_synonym 'v paired = "(string \<times> 'v example) \<times> (string \<times> 'v example)"

text \<open>
  The loop \<open>for i, examples in enumerate(zip(*generators))\<close> of \<open>_generate_examples\<close>.
  \<open>group[i]\<close> beyond the group raises \<open>IndexError\<close>, which the \<open>except\<close> clause does not
  catch: the generator ends there, after what it has yielded.
\<close>

fun generate_loop ::
  "string \<Rightarrow> string \<Rightarrow> matched_row list \<Rightarrow> nat \<Rightarrow> 'v paired list \<Rightarrow> 'v merge_state
     \<Rightarrow> 'v merge_state \<times> error option" where
  "generate_loop left_name right_name grp i [] st = (st, None)"
| "generate_loop left_name right_name grp i (examples # rest) st =
     (if length grp \<le> i then (st, Some IndexError)
      else if \<not> ids_found (grp ! i) (fst (fst examples)) (fst (snd examples))
      then generate_loop left_name right_name grp (Suc i) rest (st\<lparr>counter := counter st + 1\<rparr>)
      else generate_loop left_name right_name grp (Suc i) rest
             (st\<lparr>reported := (if counter st \<noteq> 0 then reported st @ [counter st] else reported st),
                 counter := 0,
                 yielded := yielded st
                    @ [merge_example left_name right_name (snd (fst examples)) (snd (snd examples))]\<rparr>))"

definition generate_examples ::
  "string \<Rightarrow> string \<Rightarrow> matched_row list \<Rightarrow> (string \<times> 'v example) list
     \<Rightarrow> (string \<times> 'v example) list \<Rightarrow> 'v merge_state \<times> error option" where
  "generate_examples left_name right_name grp left_stream right_stream =
     generate_loop left_name right_name grp 0 (zip left_stream right_stream)
       \<lparr>counter = 0, yielded = [], reported = []\<rparr>"

section \<open>Examples\<close>

text \<open>
  A separation for the examples: the sum of the differences of the two coordinates, in
  arc seconds, for positions in degrees.
\<close>

definition example_separation :: separation_fn where
  "example_separation p q = 3600 * (\<bar>fst p - fst q\<bar> + \<bar>snd p - snd q\<bar>)"

definition cat_a :: "catalog_row list" where
  "cat_a = [\<lparr>ra = 10, dec = 20, healpix = 5, object_id = ''a1''\<rparr>,
            \<lparr>ra = 30, dec = 40, healpix = 7, object_id = ''a2''\<rparr>]"

definition cat_b :: "catalog_row list" where
  "cat_b = [\<lparr>ra = 30, dec = 40, healpix = 7, object_id = ''b1''\<rparr>,
            \<lparr>ra = 10, dec = 20.0001, healpix = 6, object_id = ''b2''\<rparr>,
            \<lparr>ra = 50, dec = 60, healpix = 9, object_id = ''b3''\<rparr>]"

text \<open>A catalogue with two rows at one position, in two healpix regions.\<close>

definition cat_dup :: "catalog_row list" where
  "cat_dup = [\<lparr>ra = 10, dec = 20, healpix = 5, object_id = ''d1''\<rparr>,
              \<lparr>ra = 10, dec = 20, healpix = 6, object_id = ''d2''\<rparr>]"

text \<open>The master catalogue after \<open>cat_a\<close> has been folded, of the names \<open>a\<close> and \<open>b\<close>.\<close>

definition example_master :: "master_row list" where
  "example_master = master_after example_separation [cat_a, cat_b] [''a'', ''b''] 1 1"

text \<open>Two files that can be read and one that cannot.\<close>

definition example_fs :: "real list filesystem" where
  "example_fs filename =
     (if filename = ''healpix=5/a.hdf5'' then Some [''ra'' \<mapsto> [10, 30], ''dec'' \<mapsto> [20, 40]]
      else if filename = ''healpix=7/b.hdf5'' then Some [''ra'' \<mapsto> [50], ''dec'' \<mapsto> [60]]
      else None)"

definition example_data_files :: "(string \<times> string list) list" where
  "example_data_files =
     [(''train'', [''healpix=5/a.hdf5'', ''healpix=6/unreadable.hdf5'', ''healpix=7/b.hdf5''])]"

text \<open>A stand-in for \<open>vstack\<close> in the examples: the \<open>ra\<close> column of each table, in order.\<close>

definition ra_columns :: "real list table list \<Rightarrow> error + real list option list" where
  "ra_columns catalogs = Inr (map (\<lambda>t. t ''ra'') catalogs)"

text \<open>
  The check of each paired position, from position \<open>i\<close> of the group on: whether the
  two ids of row \<open>i\<close> of the group are contained in the ids of the two records.
\<close>

fun alignment :: "matched_row list \<Rightarrow> nat \<Rightarrow> 'v paired list \<Rightarrow> bool list" where
  "alignment grp i [] = []"
| "alignment grp i (examples # rest) =
     ids_found (grp ! i) (fst (fst examples)) (fst (snd examples)) # alignment grp (Suc i) rest"

text \<open>
  The lengths of the runs of failed checks that a passed check ends, in order; a run
  that nothing ends is not among them.
\<close>

function misaligned_runs :: "bool list \<Rightarrow> nat list" where
  "misaligned_runs flags =
     (case dropWhile Not flags of
        [] \<Rightarrow> []
      | _ # rest \<Rightarrow>
          (if takeWhile Not flags = [] then [] else [length (takeWhile Not flags)])
            @ misaligned_runs rest)"
  by pat_completeness auto

termination
proof (relation "measure length")
  show "wf (measure length)" by simp
next
  fix flags :: "bool list" and x rest
  assume "dropWhile Not flags = x # rest"
  then have "length rest < length (dropWhile Not flags)" by simp
  also have "\<dots> \<le> length flags" by (rule length_dropWhile_le)
  finally show "(rest, flags) \<in> measure length" by simp
qed

declare misaligned_runs.simps [simp del]

text \<open>The merged example of a pair of records.\<close>

definition merged_of :: "string \<Rightarrow> string \<Rightarrow> 'v paired \<Rightarrow> (string \<rightharpoonup> 'v)" where
  "merged_of lname rname e = merge_example lname rname (snd (fst e)) (snd (snd e))"

text \<open>The pairs of records the loop reaches: those at the positions of the group's rows.\<close>

definition checked_pairs ::
  "matched_row list \<Rightarrow> (string \<times> 'v example) list \<Rightarrow> (string \<times> 'v example) list
     \<Rightarrow> 'v paired list" where
  "checked_pairs grp left_stream right_stream = take (length grp) (zip left_stream right_stream)"

text \<open>A group of three rows and two streams whose second pair is out of step.\<close>

definition example_group :: "matched_row list" where
  "example_group =
     map default_columns [(cat_a ! 0, cat_b ! 1), (cat_a ! 1, cat_b ! 0), (cat_a ! 0, cat_b ! 2)]"

definition example_left :: "(string \<times> int example) list" where
  "example_left = [(''a1'', [(''flux'', 1)]), (''a7'', [(''flux'', 2)]), (''a1'', [(''flux'', 3)])]"

definition example_right :: "(string \<times> int example) list" where
  "example_right = [(''b2'', [(''flux'', 4)]), (''b1'', [(''mag'', 5)]), (''b3'', [(''mag'', 6)])]"

section \<open>The matcher returns a nearest reference position\<close>

lemma nearest_index_less: "refs \<noteq> [] \<Longrightarrow> nearest_index d q refs < length refs"
  by (induction refs) (auto simp: Let_def)

lemma nearest_index_min:
  "j < length refs \<Longrightarrow> d q (refs ! nearest_index d q refs) \<le> d q (refs ! j)"
proof (induction refs arbitrary: j)
  case Nil
  then show ?case by simp
next
  case (Cons r rs)
  show ?case
  proof (cases "rs = []")
    case True
    with Cons.prems show ?thesis by simp
  next
    case False
    let ?k = "nearest_index d q rs"
    show ?thesis
    proof (cases j)
      case 0
      then show ?thesis using False by (simp add: Let_def)
    next
      case (Suc j')
      with Cons.prems have "j' < length rs" by simp
      from Cons.IH [OF this] have "d q (rs ! ?k) \<le> d q (rs ! j')" .
      with Suc False show ?thesis by (auto simp: Let_def)
    qed
  qed
qed

lemma select_mask_map: "select_mask (map P xs) (map f xs) = map f (filter P xs)"
  by (induction xs) (simp_all add: select_mask_def)

lemma select_mask_map_id: "select_mask (map P xs) xs = filter P xs"
  using select_mask_map [of P xs "\<lambda>x. x"] by simp

lemma in_radius_nonempty: "in_radius d R radius l \<Longrightarrow> R \<noteq> []"
  by (auto simp: in_radius_def nearest_def)

lemma in_radius_neighbour_less: "in_radius d R radius l \<Longrightarrow> neighbour d R l < length R"
  using nearest_index_less [of "map sc R" d "sc l"]
  by (auto simp: in_radius_def neighbour_def nearest_def split: if_splits)

lemma threshold_mask_eq:
  "threshold_mask d L R radius = map (in_radius d R radius) L"
  by (simp add: threshold_mask_def match_to_catalog_sky_def in_radius_def comp_def)

lemma matched_left_eq: "matched_left d L R radius = filter (in_radius d R radius) L"
  by (simp add: matched_left_def threshold_mask_eq select_mask_map_id)

lemma matched_right_eq:
  "matched_right d L R radius = Inr (map (\<lambda>l. R ! neighbour d R l) (filter (in_radius d R radius) L))"
proof -
  have idx: "map fst (match_to_catalog_sky d (map sc L) (map sc R)) = map (neighbour d R) L"
    by (simp add: match_to_catalog_sky_def neighbour_def comp_def)
  have "list_all (\<lambda>i. i < length R) (map (neighbour d R) (filter (in_radius d R radius) L))"
    by (auto simp: list_all_iff in_radius_neighbour_less)
  then show ?thesis
    by (simp add: matched_right_def threshold_mask_eq idx select_mask_map take_rows_def comp_def)
qed

lemma list_all_border_filter: "list_all same_healpix (border_filter ps)"
  by (simp add: border_filter_def list_all_iff)

lemma cross_match_datasets_eq:
  "cross_match_datasets d L R radius =
     Inr \<lparr>matched_catalog =
            group_by (map default_columns (filter same_healpix (nearest_pairs d L R radius))),
          printed = [int (length (nearest_pairs d L R radius)),
                     int (length (filter (\<lambda>p. \<not> same_healpix p) (nearest_pairs d L R radius))),
                     int (length (filter same_healpix (nearest_pairs d L R radius)))]\<rparr>"
proof -
  let ?sel = "filter (in_radius d R radius) L"
  have z: "zip ?sel (map (\<lambda>l. R ! neighbour d R l) ?sel) = nearest_pairs d L R radius"
    by (simp add: nearest_pairs_def zip_map2 zip_same_conv_map)
  have len: "length ?sel = length (nearest_pairs d L R radius)"
    by (simp add: nearest_pairs_def)
  have lost: "int (length (nearest_pairs d L R radius))
                - int (length (filter same_healpix (nearest_pairs d L R radius)))
              = int (length (filter (\<lambda>p. \<not> same_healpix p) (nearest_pairs d L R radius)))"
    using sum_length_filter_compl [of same_healpix "nearest_pairs d L R radius"] by linarith
  show ?thesis
    unfolding cross_match_datasets_def matched_left_eq matched_right_eq
    by (simp add: Let_def z len lost border_filter_def list_all_iff)
qed

lemma nearest_pairs_sound:
  assumes "(l, r) \<in> set (nearest_pairs d L R radius)"
  shows "l \<in> set L" and "r \<in> set R" and "d (sc l) (sc r) < radius"
    and "\<forall>r'\<in>set R. d (sc l) (sc r) \<le> d (sc l) (sc r')"
proof -
  from assms have l: "l \<in> set L" and w: "in_radius d R radius l" and r: "r = R ! neighbour d R l"
    by (auto simp: nearest_pairs_def)
  from w have ne: "R \<noteq> []" by (rule in_radius_nonempty)
  from w have lt: "neighbour d R l < length R" by (rule in_radius_neighbour_less)
  have nb: "neighbour d R l = nearest_index d (sc l) (map sc R)"
    using ne by (simp add: neighbour_def nearest_def)
  show "l \<in> set L" by (rule l)
  show "r \<in> set R" using r lt by simp
  show "d (sc l) (sc r) < radius"
    using w ne lt by (simp add: in_radius_def nearest_def r nb)
  show "\<forall>r'\<in>set R. d (sc l) (sc r) \<le> d (sc l) (sc r')"
  proof
    fix r' assume "r' \<in> set R"
    then obtain j where j: "j < length R" and r': "r' = R ! j" by (auto simp: in_set_conv_nth)
    from nearest_index_min [of j "map sc R" d "sc l"] j lt
    show "d (sc l) (sc r) \<le> d (sc l) (sc r')" by (simp add: r r' nb)
  qed
qed

lemma in_radius_iff:
  "in_radius d R radius l \<longleftrightarrow> (\<exists>r'\<in>set R. d (sc l) (sc r') < radius)"
proof
  assume w: "in_radius d R radius l"
  from w have ne: "R \<noteq> []" by (rule in_radius_nonempty)
  from w have lt: "neighbour d R l < length R" by (rule in_radius_neighbour_less)
  have "d (sc l) (sc (R ! neighbour d R l)) < radius"
    using w ne lt by (simp add: in_radius_def nearest_def neighbour_def)
  with lt show "\<exists>r'\<in>set R. d (sc l) (sc r') < radius" by (meson nth_mem)
next
  assume "\<exists>r'\<in>set R. d (sc l) (sc r') < radius"
  then obtain j where j: "j < length R" and lt: "d (sc l) (sc (R ! j)) < radius"
    by (auto simp: in_set_conv_nth)
  from j have ne: "R \<noteq> []" by auto
  have "nearest_index d (sc l) (map sc R) < length R"
    using nearest_index_less [of "map sc R" d "sc l"] ne by simp
  with nearest_index_min [of j "map sc R" d "sc l"] j lt ne
  show "in_radius d R radius l" by (simp add: in_radius_def nearest_def)
qed

lemma nearest_pairs_fst:
  "map fst (nearest_pairs d L R radius) = filter (\<lambda>l. \<exists>r'\<in>set R. d (sc l) (sc r') < radius) L"
proof -
  have "in_radius d R radius = (\<lambda>l::catalog_row. \<exists>r'\<in>set R. d (sc l) (sc r') < radius)"
    by (rule ext) (rule in_radius_iff)
  then show ?thesis by (simp add: nearest_pairs_def comp_def)
qed

lemma mset_group_by_pairs:
  "mset (map (\<lambda>row. (left_row row, right_row row)) (group_by (map default_columns ps))) = mset ps"
proof -
  have "mset (map (\<lambda>row. (left_row row, right_row row)) (group_by (map default_columns ps)))
      = image_mset (\<lambda>row. (left_row row, right_row row)) (mset (map default_columns ps))"
    unfolding group_by_def by (simp only: mset_map mset_sort)
  also have "\<dots> = mset ps"
    by (simp add: default_columns_def multiset.map_comp comp_def)
  finally show ?thesis .
qed

section \<open>The claims on cross_match_datasets\<close>

text \<open>
  C4. For all catalogues and every radius, \<open>cross_match_datasets\<close> returns, and the rows
  of its table are, up to the order \<open>group_by\<close> gives them, exactly the nearest pairs whose
  two healpix columns agree: one pair for every left row that has a right row at a
  separation strictly below the radius, made of that row and a right row nearest to it.
  The second number it prints is the number of nearest pairs whose healpix columns differ.
\<close>

theorem cross_match_rows:
  "\<exists>out. cross_match_datasets separation cat_left cat_right matching_radius = Inr out
     \<and> mset (map (\<lambda>row. (left_row row, right_row row)) (matched_catalog out))
         = mset (filter same_healpix (nearest_pairs separation cat_left cat_right matching_radius))
     \<and> printed out ! 1
         = int (length (filter (\<lambda>p. \<not> same_healpix p)
                  (nearest_pairs separation cat_left cat_right matching_radius)))
     \<and> map fst (nearest_pairs separation cat_left cat_right matching_radius)
         = filter (\<lambda>l. \<exists>r'\<in>set cat_right. separation (sc l) (sc r') < matching_radius) cat_left
     \<and> (\<forall>p\<in>set (nearest_pairs separation cat_left cat_right matching_radius).
           snd p \<in> set cat_right
           \<and> separation (sc (fst p)) (sc (snd p)) < matching_radius
           \<and> (\<forall>r'\<in>set cat_right.
                 separation (sc (fst p)) (sc (snd p)) \<le> separation (sc (fst p)) (sc r')))"
proof -
  let ?ps = "nearest_pairs separation cat_left cat_right matching_radius"
  have sound: "\<forall>p\<in>set ?ps. snd p \<in> set cat_right
           \<and> separation (sc (fst p)) (sc (snd p)) < matching_radius
           \<and> (\<forall>r'\<in>set cat_right.
                 separation (sc (fst p)) (sc (snd p)) \<le> separation (sc (fst p)) (sc r'))"
  proof
    fix p assume "p \<in> set ?ps"
    then have "(fst p, snd p) \<in> set ?ps" by simp
    from nearest_pairs_sound(2-4) [OF this]
    show "snd p \<in> set cat_right
           \<and> separation (sc (fst p)) (sc (snd p)) < matching_radius
           \<and> (\<forall>r'\<in>set cat_right.
                 separation (sc (fst p)) (sc (snd p)) \<le> separation (sc (fst p)) (sc r'))"
      by blast
  qed
  show ?thesis
    unfolding cross_match_datasets_eq
    using sound by (simp add: mset_group_by_pairs nearest_pairs_fst del: mset_map mset_filter)
qed

lemma nearest_pairs_example:
  "nearest_pairs example_separation cat_a cat_b 1 = [(cat_a ! 0, cat_b ! 1), (cat_a ! 1, cat_b ! 0)]"
  by (simp add: nearest_pairs_def in_radius_def neighbour_def nearest_def cat_a_def cat_b_def
      example_separation_def sc_def Let_def)

theorem cross_match_rows_witness:
  "\<exists>out. cross_match_datasets example_separation cat_a cat_b 1 = Inr out
     \<and> printed out ! 1 = 1
     \<and> (cat_a ! 0, cat_b ! 1) \<in> set (nearest_pairs example_separation cat_a cat_b 1)
     \<and> cat_a ! 0 \<in> set cat_a
     \<and> (\<exists>r'\<in>set cat_b. example_separation (sc (cat_a ! 0)) (sc r') < 1)
     \<and> example_separation (sc (cat_a ! 0)) (sc (cat_b ! 1)) < 1"
  using cross_match_rows [of example_separation cat_a cat_b 1]
  unfolding nearest_pairs_example
  by (auto simp: same_healpix_def cat_a_def cat_b_def)

lemma matched_catalog_rows:
  assumes "cross_match_datasets d L R radius = Inr out" and "row \<in> set (matched_catalog out)"
  shows "\<exists>p\<in>set (nearest_pairs d L R radius). same_healpix p \<and> row = default_columns p"
proof -
  from assms(1) have "matched_catalog out
      = group_by (map default_columns (filter same_healpix (nearest_pairs d L R radius)))"
    unfolding cross_match_datasets_eq by auto
  with assms(2) show ?thesis by (auto simp: group_by_def)
qed

text \<open>
  C5. In every row of the table \<open>cross_match_datasets\<close> returns, \<open>object_id\<close> is the object
  id of the left side, \<open>ra\<close> and \<open>dec\<close> are the averages of the coordinates of the two
  sides, and \<open>healpix\<close> is the healpix index of the left side, which is that of the right.
\<close>

theorem derived_columns:
  assumes "cross_match_datasets separation cat_left cat_right matching_radius = Inr out"
    and "row \<in> set (matched_catalog out)"
  shows "m_object_id row = object_id (left_row row)
     \<and> m_ra row = (ra (left_row row) + ra (right_row row)) / 2
     \<and> m_dec row = (dec (left_row row) + dec (right_row row)) / 2
     \<and> m_healpix row = healpix (left_row row)
     \<and> m_healpix row = healpix (right_row row)"
proof -
  from matched_catalog_rows [OF assms] obtain p
    where "same_healpix p" and "row = default_columns p" by blast
  then show ?thesis by (simp add: default_columns_def same_healpix_def)
qed

lemma cross_match_example:
  "cross_match_datasets example_separation cat_a cat_b 1
     = Inr \<lparr>matched_catalog = [default_columns (cat_a ! 1, cat_b ! 0)], printed = [2, 1, 1]\<rparr>"
  unfolding cross_match_datasets_eq nearest_pairs_example
  by (simp add: same_healpix_def cat_a_def cat_b_def group_by_def)

theorem derived_columns_witness:
  "cross_match_datasets example_separation cat_a cat_b 1
     = Inr \<lparr>matched_catalog = [default_columns (cat_a ! 1, cat_b ! 0)], printed = [2, 1, 1]\<rparr>
   \<and> default_columns (cat_a ! 1, cat_b ! 0)
       \<in> set (matched_catalog \<lparr>matched_catalog = [default_columns (cat_a ! 1, cat_b ! 0)], printed = [2, 1, 1]\<rparr>)
   \<and> m_object_id (default_columns (cat_a ! 1, cat_b ! 0)) = ''a2''
   \<and> m_ra (default_columns (cat_a ! 1, cat_b ! 0)) = 30
   \<and> m_dec (default_columns (cat_a ! 1, cat_b ! 0)) = 40
   \<and> m_healpix (default_columns (cat_a ! 1, cat_b ! 0)) = 7"
proof -
  have m: "default_columns (cat_a ! 1, cat_b ! 0)
       \<in> set (matched_catalog \<lparr>matched_catalog = [default_columns (cat_a ! 1, cat_b ! 0)], printed = [2, 1, 1]\<rparr>)"
    by simp
  have l: "left_row (default_columns (cat_a ! 1, cat_b ! 0)) = cat_a ! 1"
    and r: "right_row (default_columns (cat_a ! 1, cat_b ! 0)) = cat_b ! 0"
    by (simp_all add: default_columns_def)
  from derived_columns [OF cross_match_example m] cross_match_example m
  show ?thesis unfolding l r by (simp add: cat_a_def cat_b_def)
qed

text \<open>
  C7. For all catalogues and every radius the two assertions of \<open>cross_match_datasets\<close>
  hold: the rows selected on the right are as many as the rows selected on the left, every
  row that is left after the filter at the region borders has the same healpix index on
  both sides, and the function returns its table.
\<close>

theorem assertions_never_fire:
  "\<exists>sel_right out.
      matched_right separation cat_left cat_right matching_radius = Inr sel_right
    \<and> length (matched_left separation cat_left cat_right matching_radius) = length sel_right
    \<and> list_all same_healpix
        (border_filter (zip (matched_left separation cat_left cat_right matching_radius) sel_right))
    \<and> cross_match_datasets separation cat_left cat_right matching_radius = Inr out"
  unfolding matched_right_eq matched_left_eq cross_match_datasets_eq
  by (simp add: list_all_border_filter)

text \<open>
  C6, as stated, fails: of two rows at one position the matcher gives both the same
  neighbour, so that where their healpix indices differ one of the two pairs is lost at
  the region borders. For \<open>cat_dup\<close> matched with itself the function prints 2 matches,
  1 lost and 1 left.
\<close>

theorem identical_catalogs_counterexample:
  "cross_match_datasets example_separation cat_dup cat_dup 1
     = Inr \<lparr>matched_catalog = [default_columns (cat_dup ! 0, cat_dup ! 0)], printed = [2, 1, 1]\<rparr>"
proof -
  have "nearest_pairs example_separation cat_dup cat_dup 1
          = [(cat_dup ! 0, cat_dup ! 0), (cat_dup ! 1, cat_dup ! 0)]"
    by (simp add: nearest_pairs_def in_radius_def neighbour_def nearest_def cat_dup_def
        example_separation_def sc_def Let_def)
  then show ?thesis
    unfolding cross_match_datasets_eq
    by (simp add: same_healpix_def cat_dup_def group_by_def)
qed

text \<open>
  C6, amended. For every radius above 0 and every catalogue in which a position is at
  separation 0 from itself, and two rows at separation 0 (or less) have the same
  coordinates and the same healpix index: matching the catalogue with itself gives as
  many matches as the catalogue has rows, none lost at the region borders, the rows of the
  catalogue as the left sides, and \<open>ra\<close> and \<open>dec\<close> equal to the coordinates of both sides.
\<close>

theorem identical_catalogs:
  assumes radius: "0 < matching_radius"
    and self: "\<forall>r\<in>set cat. separation (sc r) (sc r) = 0"
    and zero: "\<forall>r\<in>set cat. \<forall>r'\<in>set cat.
                 separation (sc r) (sc r') \<le> 0 \<longrightarrow> sc r' = sc r \<and> healpix r' = healpix r"
  shows "\<exists>out. cross_match_datasets separation cat cat matching_radius = Inr out
     \<and> printed out = [int (length cat), 0, int (length cat)]
     \<and> mset (map left_row (matched_catalog out)) = mset cat
     \<and> (\<forall>row\<in>set (matched_catalog out).
           m_ra row = ra (left_row row) \<and> m_dec row = dec (left_row row)
         \<and> m_ra row = ra (right_row row) \<and> m_dec row = dec (right_row row))"
proof -
  let ?ps = "nearest_pairs separation cat cat matching_radius"
  have all_in: "filter (in_radius separation cat matching_radius) cat = cat"
  proof -
    have "\<forall>l\<in>set cat. in_radius separation cat matching_radius l"
      using radius self by (simp add: in_radius_iff) (metis)
    then show ?thesis by simp
  qed
  have same: "sc (snd p) = sc (fst p) \<and> healpix (snd p) = healpix (fst p)" if "p \<in> set ?ps" for p
  proof -
    from that have p: "(fst p, snd p) \<in> set ?ps" by simp
    have l: "fst p \<in> set cat" and r: "snd p \<in> set cat"
      using nearest_pairs_sound(1,2) [OF p] by simp_all
    from nearest_pairs_sound(4) [OF p] l
    have "separation (sc (fst p)) (sc (snd p)) \<le> separation (sc (fst p)) (sc (fst p))" by blast
    with self l have "separation (sc (fst p)) (sc (snd p)) \<le> 0" by simp
    with zero l r show ?thesis by blast
  qed
  have keep: "filter same_healpix ?ps = ?ps"
    using same by (auto simp: same_healpix_def)
  have none: "filter (\<lambda>p. \<not> same_healpix p) ?ps = []"
    using same by (auto simp: same_healpix_def filter_empty_conv)
  have len: "length ?ps = length cat"
    by (simp add: nearest_pairs_def all_in)
  have lefts: "mset (map left_row (group_by (map default_columns ?ps))) = mset cat"
  proof -
    have "map (left_row \<circ> default_columns) ?ps = cat"
      by (simp add: nearest_pairs_def all_in comp_def default_columns_def)
    then have "image_mset left_row (image_mset default_columns (mset ?ps)) = mset cat"
      by (metis mset_map map_map)
    then show ?thesis
      unfolding group_by_def by (simp only: mset_map mset_sort)
  qed
  have coords: "\<forall>row\<in>set (group_by (map default_columns ?ps)).
           m_ra row = ra (left_row row) \<and> m_dec row = dec (left_row row)
         \<and> m_ra row = ra (right_row row) \<and> m_dec row = dec (right_row row)"
  proof
    fix row assume "row \<in> set (group_by (map default_columns ?ps))"
    then obtain p where p: "p \<in> set ?ps" and row: "row = default_columns p"
      by (auto simp: group_by_def)
    from same [OF p] have "ra (snd p) = ra (fst p)" and "dec (snd p) = dec (fst p)"
      by (simp_all add: sc_def)
    then show "m_ra row = ra (left_row row) \<and> m_dec row = dec (left_row row)
         \<and> m_ra row = ra (right_row row) \<and> m_dec row = dec (right_row row)"
      by (simp add: row default_columns_def)
  qed
  show ?thesis
    unfolding cross_match_datasets_eq keep none len
    using coords lefts by (auto simp del: mset_map)
qed

theorem identical_catalogs_witness:
  "0 < (1::real)
   \<and> list_all (\<lambda>r. example_separation (sc r) (sc r) = 0) cat_a
   \<and> list_all (\<lambda>r. list_all (\<lambda>r'. 0 < example_separation (sc r) (sc r')
                                     \<or> sc r' = sc r \<and> healpix r' = healpix r) cat_a) cat_a
   \<and> (\<exists>out. cross_match_datasets example_separation cat_a cat_a 1 = Inr out
          \<and> printed out = [2, 0, 2]
          \<and> mset (map left_row (matched_catalog out)) = mset cat_a)"
proof -
  have h1: "0 < (1::real)" by simp
  have h2: "\<forall>r\<in>set cat_a. example_separation (sc r) (sc r) = 0"
    by (simp add: example_separation_def)
  have h3: "\<forall>r\<in>set cat_a. \<forall>r'\<in>set cat_a.
          example_separation (sc r) (sc r') \<le> 0 \<longrightarrow> sc r' = sc r \<and> healpix r' = healpix r"
    by (simp add: cat_a_def example_separation_def sc_def)
  have len: "int (length cat_a) = 2" by (simp add: cat_a_def)
  have "\<exists>out. cross_match_datasets example_separation cat_a cat_a 1 = Inr out
          \<and> printed out = [2, 0, 2]
          \<and> mset (map left_row (matched_catalog out)) = mset cat_a"
    using identical_catalogs [OF h1 h2 h3] unfolding len by blast
  moreover have "list_all (\<lambda>r. example_separation (sc r) (sc r) = 0) cat_a"
    using h2 by (simp add: list_all_iff)
  moreover have "list_all (\<lambda>r. list_all (\<lambda>r'. 0 < example_separation (sc r) (sc r')
                                     \<or> sc r' = sc r \<and> healpix r' = healpix r) cat_a) cat_a"
    using h3 unfolding list_all_iff by (meson not_le)
  ultimately show ?thesis using h1 by blast
qed

section \<open>The claim on get_catalog\<close>

lemma read_files_map_in_order:
  "read_files fs keys files catalogs =
     (case map_in_order (\<lambda>filename. file_to_catalog fs filename keys) files of
        Inl e \<Rightarrow> Inl e
      | Inr cs \<Rightarrow> Inr (catalogs @ map the (filter (\<lambda>c. c \<noteq> None) cs)))"
proof (induction files arbitrary: catalogs)
  case Nil
  show ?case by simp
next
  case (Cons filename files)
  show ?case
  proof (cases "file_to_catalog fs filename keys")
    case (Inl e)
    then show ?thesis by simp
  next
    case (Inr c)
    show ?thesis
    proof (cases c)
      case None
      with Inr Cons.IH [of catalogs] show ?thesis
        by (simp split: sum.splits)
    next
      case (Some t)
      with Inr Cons.IH [of "catalogs @ [t]"] show ?thesis
        by (simp split: sum.splits)
    qed
  qed
qed

lemma not_picklable_file_to_catalog: "\<not> picklable file_to_catalog_qualname"
  by (simp add: picklable_def file_to_catalog_qualname_def sublist_code prefix_code)

text \<open>
  With more than one process \<open>get_catalog\<close> returns no table for a split that has a file:
  the pool cannot be given \<open>_file_to_catalog\<close>.
\<close>

lemma get_catalog_pool_raises:
  assumes "1 < num_proc" and "map_of data_files split = Some files" and "files \<noteq> []"
  shows "get_catalog vstack fs data_files keys split num_proc = Inl PicklingError"
proof -
  from assms(3) obtain filename rest where files: "files = filename # rest"
    by (cases files) auto
  from assms(2) have "data_files \<noteq> []" by auto
  with assms(1,2) show ?thesis
    unfolding files by (simp add: get_catalog_def not_picklable_file_to_catalog)
qed

text \<open>
  On a split without files the two branches agree: each gives \<open>vstack\<close> the empty list.
\<close>

lemma get_catalog_no_file:
  assumes "map_of data_files split = Some []"
  shows "get_catalog vstack fs data_files keys split num_proc = vstack []"
proof -
  from assms have "data_files \<noteq> []" by auto
  with assms show ?thesis by (simp add: get_catalog_def)
qed

text \<open>
  C10. \<open>get_catalog\<close> with \<open>num_proc > 1\<close> does not give the table that it gives with
  \<open>num_proc = 1\<close>. On a builder whose split \<open>train\<close> has three files, of which the second
  cannot be opened, the loop of \<open>num_proc = 1\<close> returns the table stacked from the first and
  the third file, in that order; \<open>num_proc = 2\<close> raises, on the same builder, keys and
  split, since \<open>Pool.map\<close> cannot pickle \<open>_file_to_catalog\<close>.
\<close>

theorem get_catalog_num_proc_raises:
  "get_catalog ra_columns example_fs example_data_files [''ra'', ''dec''] ''train'' 2
       = Inl PicklingError
   \<and> get_catalog ra_columns example_fs example_data_files [''ra'', ''dec''] ''train'' 1
       = Inr [Some [10, 30], Some [50]]"
proof -
  have par: "get_catalog ra_columns example_fs example_data_files [''ra'', ''dec''] ''train'' 2
       = Inl PicklingError"
    by (simp add: get_catalog_def example_data_files_def not_picklable_file_to_catalog)
  have seq: "get_catalog ra_columns example_fs example_data_files [''ra'', ''dec''] ''train'' 1
       = Inr [Some [10, 30], Some [50]]"
    by (simp add: get_catalog_def example_data_files_def example_fs_def file_to_catalog_def
        table_of_def ra_columns_def)
  from par seq show ?thesis by simp
qed

section \<open>The claim on the merge of the two streams\<close>

lemma misaligned_runs_failures: "misaligned_runs (replicate n False) = []"
  by (subst misaligned_runs.simps) (simp add: dropWhile_eq_Nil_conv)

lemma takeWhile_failures: "takeWhile Not (replicate n False @ True # fs) = replicate n False"
  by (induction n) simp_all

lemma dropWhile_failures: "dropWhile Not (replicate n False @ True # fs) = True # fs"
  by (induction n) simp_all

lemma misaligned_runs_ended:
  "misaligned_runs (replicate n False @ True # fs) = (if n = 0 then [] else [n]) @ misaligned_runs fs"
  by (subst misaligned_runs.simps) (simp add: takeWhile_failures dropWhile_failures)

lemma takeWhile_Not_True: "takeWhile Not (xs @ True # ys) = takeWhile Not xs"
  by (induction xs) simp_all

lemma failures_Cons: "replicate (Suc n) False @ fs = replicate n False @ False # fs"
  by (simp add: replicate_app_Cons_same)

lemma length_alignment: "length (alignment grp i ps) = length ps"
  by (induction ps arbitrary: i) simp_all

lemma loop_no_error:
  "i + length ps \<le> length grp \<Longrightarrow> snd (generate_loop lname rname grp i ps st) = None"
  by (induction ps arbitrary: i st) simp_all

lemma loop_yielded:
  "i + length ps \<le> length grp \<Longrightarrow>
   yielded (fst (generate_loop lname rname grp i ps st))
     = yielded st @ map (merged_of lname rname) (select_mask (alignment grp i ps) ps)"
  by (induction ps arbitrary: i st) (simp_all add: select_mask_def merged_of_def)

lemma loop_total:
  "i + length ps \<le> length grp \<Longrightarrow>
   sum_list (reported (fst (generate_loop lname rname grp i ps st)))
     + counter (fst (generate_loop lname rname grp i ps st))
     = sum_list (reported st) + counter st + length (filter Not (alignment grp i ps))"
  by (induction ps arbitrary: i st) simp_all

lemma loop_reported:
  "i + length ps \<le> length grp \<Longrightarrow>
   reported (fst (generate_loop lname rname grp i ps st))
     = reported st @ misaligned_runs (replicate (counter st) False @ alignment grp i ps)"
proof (induction ps arbitrary: i st)
  case Nil
  show ?case by (simp add: misaligned_runs_failures)
next
  case (Cons e ps)
  from Cons.prems have le: "Suc i + length ps \<le> length grp" and i: "\<not> length grp \<le> i" by simp_all
  let ?A = "alignment grp (Suc i) ps"
  show ?case
  proof (cases "ids_found (grp ! i) (fst (fst e)) (fst (snd e))")
    case True
    with i Cons.IH [OF le] show ?thesis
      by (simp add: misaligned_runs_ended)
  next
    case False
    define st' where "st' = st\<lparr>counter := counter st + 1\<rparr>"
    have step: "generate_loop lname rname grp i (e # ps) st
                  = generate_loop lname rname grp (Suc i) ps st'"
      using False i by (simp add: st'_def)
    have al: "alignment grp i (e # ps) = False # ?A" using False by simp
    have "reported (fst (generate_loop lname rname grp (Suc i) ps st'))
            = reported st' @ misaligned_runs (replicate (counter st') False @ ?A)"
      by (rule Cons.IH [OF le])
    also have "reported st' = reported st" by (simp add: st'_def)
    also have "counter st' = Suc (counter st)" by (simp add: st'_def)
    also have "replicate (Suc (counter st)) False @ ?A = replicate (counter st) False @ False # ?A"
      by (rule failures_Cons)
    finally show ?thesis unfolding step al .
  qed
qed

lemma loop_counter:
  "i + length ps \<le> length grp \<Longrightarrow>
   counter (fst (generate_loop lname rname grp i ps st))
     = length (takeWhile Not (rev (alignment grp i ps) @ replicate (counter st) False))"
proof (induction ps arbitrary: i st)
  case Nil
  show ?case by simp
next
  case (Cons e ps)
  from Cons.prems have le: "Suc i + length ps \<le> length grp" and i: "\<not> length grp \<le> i" by simp_all
  show ?case
  proof (cases "ids_found (grp ! i) (fst (fst e)) (fst (snd e))")
    case True
    with i Cons.IH [OF le] show ?thesis
      by (simp add: takeWhile_Not_True)
  next
    case False
    have "replicate (counter st) False @ [False] = False # replicate (counter st) False"
      by (simp add: replicate_append_same)
    with False i Cons.IH [OF le] show ?thesis by simp
  qed
qed

lemma loop_append:
  "generate_loop lname rname grp i (ps @ qs) st
     = (case generate_loop lname rname grp i ps st of
          (st', None) \<Rightarrow> generate_loop lname rname grp (i + length ps) qs st'
        | (st', Some e) \<Rightarrow> (st', Some e))"
  by (induction ps arbitrary: i st) simp_all

lemma loop_beyond:
  "length grp \<le> i \<Longrightarrow>
   generate_loop lname rname grp i qs st = (st, if qs = [] then None else Some IndexError)"
  by (cases qs) simp_all

lemma loop_split:
  "generate_loop lname rname grp 0 ps st
     = (fst (generate_loop lname rname grp 0 (take (length grp) ps) st),
        if length grp < length ps then Some IndexError else None)"
proof -
  let ?a = "take (length grp) ps" and ?b = "drop (length grp) ps"
  have le: "0 + length ?a \<le> length grp" by simp
  obtain st' where r: "generate_loop lname rname grp 0 ?a st = (st', None)"
    using loop_no_error [OF le, of lname rname st] by (cases "generate_loop lname rname grp 0 ?a st") auto
  show ?thesis
  proof (cases "length grp < length ps")
    case True
    then have "length grp \<le> 0 + length ?a" and "?b \<noteq> []" by simp_all
    with loop_append [of lname rname grp 0 ?a ?b st] r True show ?thesis
      by (simp add: loop_beyond)
  next
    case False
    then have "?a = ps" by simp
    with r False show ?thesis by simp
  qed
qed

text \<open>
  C8. For every group and every two streams, the loop of \<open>_generate_examples\<close> does not
  raise at any paired position inside the group. It yields the merged examples of exactly
  the pairs whose check passes, in order, so that a pair whose check fails on either side
  is skipped. Every skipped pair is counted once: the counts printed are the lengths of
  the runs of failed checks that a passed check ends, each printed when that check passes
  and the counter set back to 0, and the counter is left at the length of the last run,
  which nothing ended.
\<close>

theorem misaligned_pairs_skipped:
  assumes "generate_examples left_name right_name grp left_stream right_stream = (st, err)"
  shows "err = (if length grp < length (zip left_stream right_stream) then Some IndexError else None)
     \<and> yielded st
         = map (merged_of left_name right_name)
             (select_mask (alignment grp 0 (checked_pairs grp left_stream right_stream))
                (checked_pairs grp left_stream right_stream))
     \<and> reported st = misaligned_runs (alignment grp 0 (checked_pairs grp left_stream right_stream))
     \<and> counter st
         = length (takeWhile Not (rev (alignment grp 0 (checked_pairs grp left_stream right_stream))))
     \<and> sum_list (reported st) + counter st
         = length (filter Not (alignment grp 0 (checked_pairs grp left_stream right_stream)))"
proof -
  let ?ps = "checked_pairs grp left_stream right_stream"
  let ?st0 = "\<lparr>counter = 0, yielded = [], reported = []\<rparr> :: 'a merge_state"
  have le: "0 + length ?ps \<le> length grp" by (simp add: checked_pairs_def)
  from assms loop_split [of left_name right_name grp "zip left_stream right_stream" ?st0]
  have st: "st = fst (generate_loop left_name right_name grp 0 ?ps ?st0)"
    and err: "err = (if length grp < length (zip left_stream right_stream) then Some IndexError else None)"
    by (simp_all add: generate_examples_def checked_pairs_def)
  show ?thesis
    unfolding st
    using err loop_yielded [OF le, of left_name right_name ?st0]
      loop_reported [OF le, of left_name right_name ?st0]
      loop_counter [OF le, of left_name right_name ?st0]
      loop_total [OF le, of left_name right_name ?st0]
    by simp
qed

lemma example_alignment:
  "alignment example_group 0 (checked_pairs example_group example_left example_right)
     = [True, False, True]"
  by (simp add: example_group_def example_left_def example_right_def checked_pairs_def
      ids_found_def default_columns_def cat_a_def cat_b_def sublist_code)

lemma example_runs: "misaligned_runs [True, False, True] = [1]"
  by code_simp

theorem misaligned_pairs_skipped_witness:
  "snd (generate_examples ''A'' ''B'' example_group example_left example_right) = None
   \<and> length (yielded (fst (generate_examples ''A'' ''B'' example_group example_left example_right))) = 2
   \<and> reported (fst (generate_examples ''A'' ''B'' example_group example_left example_right)) = [1]
   \<and> counter (fst (generate_examples ''A'' ''B'' example_group example_left example_right)) = 0"
proof -
  have e: "generate_examples ''A'' ''B'' example_group example_left example_right
         = (fst (generate_examples ''A'' ''B'' example_group example_left example_right),
            snd (generate_examples ''A'' ''B'' example_group example_left example_right))"
    by simp
  have n: "\<not> length example_group < length (zip example_left example_right)"
    by (simp add: example_group_def example_left_def example_right_def)
  have l: "length (select_mask [True, False, True]
             (checked_pairs example_group example_left example_right)) = 2"
    by (simp add: select_mask_def checked_pairs_def example_group_def example_left_def
        example_right_def)
  from misaligned_pairs_skipped [OF e] show ?thesis
    unfolding example_alignment example_runs using n l by simp
qed

section \<open>One round of build_master_catalog\<close>

lemma length_match_to_catalog_sky: "length (match_to_catalog_sky d qs rs) = length qs"
  by (simp add: match_to_catalog_sky_def)

lemma sc_extract_cat_params: "map sc (extract_cat_params c) = map sc c"
  by (simp add: extract_cat_params_def sc_def)

lemma length_extract_cat_params: "length (extract_cat_params c) = length c"
  by (simp add: extract_cat_params_def)

lemma nth_extract_cat_params:
  "i < length c \<Longrightarrow> sc (extract_cat_params c ! i) = sc (c ! i)
     \<and> healpix (extract_cat_params c ! i) = healpix (c ! i)"
  by (simp add: extract_cat_params_def sc_def)

lemma sc_set_matching: "sc (set_matching name r rm) = sc (fst rm)"
  by (simp add: set_matching_def sc_def)

lemma update_matching_columns_eq:
  "update_matching_columns name r master (match_to_catalog_sky d (map sc master) refs)
     = map (\<lambda>row. set_matching name r (row, nearest d (sc row) refs)) master"
  by (simp add: update_matching_columns_def match_to_catalog_sky_def zip_map2 zip_same_conv_map)

lemma known_mask_eq:
  "known_mask d r M cat
     = map (\<lambda>row. M \<noteq> [] \<and> sep_less (snd (nearest d (sc row) (map sc M))) r) cat"
proof (cases "M = []")
  case True
  then show ?thesis
    by (induction cat) (simp_all add: known_mask_def)
next
  case False
  then show ?thesis
    by (simp add: known_mask_def match_to_catalog_sky_def comp_def)
qed

lemma select_mask_zip:
  "length js = length xs \<Longrightarrow>
   select_mask (map P xs) (zip js xs) = filter (\<lambda>ix. P (snd ix)) (zip js xs)"
  by (induction js xs rule: list_induct2) (simp_all add: select_mask_def)

lemma select_mask_indexed:
  "select_mask (map P xs) (zip [0..<length xs] xs)
     = filter (\<lambda>ix. P (snd ix)) (zip [0..<length xs] xs)"
  by (rule select_mask_zip) simp

lemma fold_catalog_eq:
  "fold_catalog d r names master (c, name)
     = map (\<lambda>row. set_matching name r (row, nearest d (sc row) (map sc c))) master
       @ map (new_row names name)
           (filter (\<lambda>ix. \<not> (master \<noteq> [] \<and> in_radius d master r (snd ix)))
              (zip [0..<length c] (extract_cat_params c)))"
proof -
  let ?cat = "extract_cat_params c"
  let ?up = "map (\<lambda>row. set_matching name r (row, nearest d (sc row) (map sc c))) master"
  have up: "update_matching_columns name r master
              (match_to_catalog_sky d (map sc master) (map sc ?cat)) = ?up"
    by (simp add: update_matching_columns_eq sc_extract_cat_params)
  have scs: "map sc ?up = map sc master"
    by (simp add: comp_def sc_set_matching)
  have ne: "(?up \<noteq> []) = (master \<noteq> [])" by simp
  have km: "map Not (known_mask d r ?up ?cat)
              = map (\<lambda>row. \<not> (master \<noteq> [] \<and> in_radius d master r row)) ?cat"
    unfolding known_mask_eq scs ne by (simp add: in_radius_def comp_def)
  have sel: "select_mask (map Not (known_mask d r ?up ?cat)) (zip [0..<length ?cat] ?cat)
               = filter (\<lambda>ix. \<not> (master \<noteq> [] \<and> in_radius d master r (snd ix)))
                   (zip [0..<length ?cat] ?cat)"
    unfolding km by (rule select_mask_indexed)
  show ?thesis
    unfolding fold_catalog_def Let_def fst_conv snd_conv up append_cat_def sel
    by (simp add: length_extract_cat_params)
qed

lemma fold_catalog_parts:
  "take (length master) (fold_catalog d r names master (c, name))
     = map (\<lambda>row. set_matching name r (row, nearest d (sc row) (map sc c))) master"
  "drop (length master) (fold_catalog d r names master (c, name))
     = map (new_row names name)
         (filter (\<lambda>ix. \<not> (master \<noteq> [] \<and> in_radius d master r (snd ix)))
            (zip [0..<length c] (extract_cat_params c)))"
  by (simp_all add: fold_catalog_eq)

lemma fold_catalog_empty_master:
  "fold_catalog d r names [] (c, name)
     = map (new_row names name) (zip [0..<length c] (extract_cat_params c))"
  by (simp add: fold_catalog_eq)

lemma zip_indexed_mem:
  "(i, x) \<in> set (zip [0..<length xs] xs) \<Longrightarrow> i < length xs \<and> x = xs ! i"
  by (auto simp: set_zip)

lemma nth_indexed:
  "i < length xs \<Longrightarrow> map f (zip [0..<length xs] xs) ! i = f (i, xs ! i)"
  by simp

lemma map_of_names:
  "map_of (map (\<lambda>subname. (subname, f subname)) names) s
     = (if s \<in> set names then Some (f s) else None)"
  by (induction names) auto

lemma new_row_data:
  "s \<in> set names \<Longrightarrow>
   name_data (new_row names name ix) s = Some (s = name)
   \<and> name_idx_data (new_row names name ix) s = Some (if s \<noteq> name then - 1 else int (fst ix))"
  by (simp add: new_row_def map_of_names)

lemma sc_new_row: "sc (new_row names name ix) = sc (snd ix)"
  and healpix_new_row: "healpix (new_row names name ix) = healpix (snd ix)"
  by (simp_all add: new_row_def sc_def)

lemma master_after_one:
  "master_after d (c # cs) (name # ns) r 1
     = map (new_row (name # ns) name) (zip [0..<length c] (extract_cat_params c))"
  by (simp add: master_after_def fold_catalog_empty_master)

lemma master_after_Suc:
  "k < length (zip cats names) \<Longrightarrow>
   master_after d cats names r (Suc k)
     = fold_catalog d r names (master_after d cats names r k) (zip cats names ! k)"
  by (simp add: master_after_def take_Suc_conv_app_nth)

lemma example_master_rows:
  "length example_master = 2" "sc (example_master ! 1) = (30, 40)"
  unfolding example_master_def master_after_one
  by (simp_all add: extract_cat_params_def cat_a_def sc_new_row) (simp add: sc_def)

section \<open>The first catalogue\<close>

text \<open>
  C1. Whatever the list of catalogues, if its first catalogue has \<open>n\<close> rows then
  \<open>build_master_catalog\<close>, which starts from the empty master catalogue, has after its
  first round a master catalogue of exactly \<open>n\<close> rows: row \<open>i\<close> has the flag of that
  catalogue set and its index equal to \<open>i\<close>, has the position and the healpix of row \<open>i\<close>
  of the catalogue, and has for every other name the flag \<open>False\<close> and the index \<open>-1\<close>.
  For a single catalogue this is the table that \<open>build_master_catalog\<close> returns.
\<close>

theorem first_catalog_folded:
  "length (master_after separation (c # cs) (name # ns) matching_radius 1) = length c
   \<and> (\<forall>i<length c.
         name_data (master_after separation (c # cs) (name # ns) matching_radius 1 ! i) name = Some True
       \<and> name_idx_data (master_after separation (c # cs) (name # ns) matching_radius 1 ! i) name
           = Some (int i)
       \<and> sc (master_after separation (c # cs) (name # ns) matching_radius 1 ! i) = sc (c ! i)
       \<and> healpix (master_after separation (c # cs) (name # ns) matching_radius 1 ! i)
           = healpix (c ! i)
       \<and> (\<forall>other\<in>set ns. other \<noteq> name \<longrightarrow>
             name_data (master_after separation (c # cs) (name # ns) matching_radius 1 ! i) other
               = Some False
           \<and> name_idx_data (master_after separation (c # cs) (name # ns) matching_radius 1 ! i) other
               = Some (- 1)))
   \<and> build_master_catalog separation [c] [name] matching_radius
       = Inr (master_after separation [c] [name] matching_radius 1)"
proof -
  let ?cat = "extract_cat_params c"
  have len: "length ?cat = length c" by (rule length_extract_cat_params)
  have row: "master_after separation (c # cs) (name # ns) matching_radius 1 ! i
               = new_row (name # ns) name (i, ?cat ! i)" if "i < length c" for i
    unfolding master_after_one using that nth_indexed [of i ?cat] len by simp
  have b: "build_master_catalog separation [c] [name] matching_radius
       = Inr (master_after separation [c] [name] matching_radius 1)"
    by (simp add: build_master_catalog_def master_after_def)
  have l: "length (master_after separation (c # cs) (name # ns) matching_radius 1) = length c"
    unfolding master_after_one by (simp add: len)
  have rows: "name_data (master_after separation (c # cs) (name # ns) matching_radius 1 ! i) name = Some True
       \<and> name_idx_data (master_after separation (c # cs) (name # ns) matching_radius 1 ! i) name
           = Some (int i)
       \<and> sc (master_after separation (c # cs) (name # ns) matching_radius 1 ! i) = sc (c ! i)
       \<and> healpix (master_after separation (c # cs) (name # ns) matching_radius 1 ! i)
           = healpix (c ! i)
       \<and> (\<forall>other\<in>set ns. other \<noteq> name \<longrightarrow>
             name_data (master_after separation (c # cs) (name # ns) matching_radius 1 ! i) other
               = Some False
           \<and> name_idx_data (master_after separation (c # cs) (name # ns) matching_radius 1 ! i) other
               = Some (- 1))" if i: "i < length c" for i
    unfolding row [OF i]
    using nth_extract_cat_params [OF i]
    by (simp add: new_row_data sc_new_row healpix_new_row)
  from l b rows show ?thesis by blast
qed

theorem first_catalog_folded_witness:
  "length (master_after example_separation [cat_a, cat_b] [''a'', ''b''] 1 1) = 2
   \<and> name_data (master_after example_separation [cat_a, cat_b] [''a'', ''b''] 1 1 ! 1) ''a'' = Some True
   \<and> name_idx_data (master_after example_separation [cat_a, cat_b] [''a'', ''b''] 1 1 ! 1) ''a'' = Some 1
   \<and> name_data (master_after example_separation [cat_a, cat_b] [''a'', ''b''] 1 1 ! 1) ''b'' = Some False
   \<and> name_idx_data (master_after example_separation [cat_a, cat_b] [''a'', ''b''] 1 1 ! 1) ''b''
       = Some (- 1)"
proof -
  have l: "length cat_a = 2" and i: "(1::nat) < length cat_a" by (simp_all add: cat_a_def)
  have o: "''b'' \<in> set [''b'']" and n: "''b'' \<noteq> ''a''" by simp_all
  from first_catalog_folded [of example_separation cat_a "[cat_b]" "''a''" "[''b'']" 1] l i o n
  show ?thesis by force
qed

section \<open>An object at the position of a master row\<close>

text \<open>
  C3 does not hold as it is stated. \<open>cat_dup\<close> has two objects at one position. After
  its first object alone has been folded as the catalogue \<open>first\<close>, the master catalogue
  has one row, at that position; folding \<open>cat_dup\<close> as the catalogue \<open>second\<close> appends
  no row and sets the flag of the master row, but its index for \<open>second\<close> is \<open>0\<close>, which
  is not the index of the object at row \<open>1\<close> of \<open>cat_dup\<close>, although that object is at
  exactly the position of the master row. A master row holds one index for a catalogue,
  so with two objects at its position one of them is not the one the row points to.
\<close>

theorem same_position_index_counterexample:
  "sc (cat_dup ! 1)
     = sc (master_after example_separation [[cat_dup ! 0], cat_dup] [''first'', ''second''] 1 1 ! 0)
   \<and> length (master_after example_separation [[cat_dup ! 0], cat_dup] [''first'', ''second''] 1 2) = 1
   \<and> name_data
        (master_after example_separation [[cat_dup ! 0], cat_dup] [''first'', ''second''] 1 2 ! 0)
        ''second'' = Some True
   \<and> name_idx_data
        (master_after example_separation [[cat_dup ! 0], cat_dup] [''first'', ''second''] 1 2 ! 0)
        ''second'' = Some 0"
proof -
  let ?m1 = "master_after example_separation [[cat_dup ! 0], cat_dup] [''first'', ''second''] 1 1"
  let ?row = "new_row [''first'', ''second''] ''first''
                (0, \<lparr>ra = 10, dec = 20, healpix = 5\<rparr>)"
  have m1: "?m1 = [?row]"
    unfolding master_after_one by (simp add: extract_cat_params_def cat_dup_def)
  have pos: "sc ?row = (10, 20)" unfolding sc_new_row by (simp add: sc_def)
  have m1': "master_after example_separation [[cat_dup ! 0], cat_dup] [''first'', ''second''] 1 (Suc 0)
               = [?row]"
    using m1 by simp
  have two: "(2::nat) = Suc (Suc 0)" by simp
  have m2: "master_after example_separation [[cat_dup ! 0], cat_dup] [''first'', ''second''] 1 2
              = fold_catalog example_separation 1 [''first'', ''second''] [?row] (cat_dup, ''second'')"
    unfolding two by (subst master_after_Suc) (simp_all add: m1')
  have near: "nearest example_separation (10, 20) (map sc cat_dup) = (0, Finite 0)"
    by (simp add: nearest_def cat_dup_def sc_def example_separation_def Let_def)
  have known: "in_radius example_separation [?row] 1 x" if "sc x = (10, 20)" for x :: sky_row
    using that by (simp add: in_radius_def nearest_def pos example_separation_def)
  have none: "filter (\<lambda>ix. \<not> ([?row] \<noteq> [] \<and> in_radius example_separation [?row] 1 (snd ix)))
                (zip [0..<length cat_dup] (extract_cat_params cat_dup)) = []"
    by (simp add: cat_dup_def extract_cat_params_def known sc_def)
  have same: "sc (cat_dup ! 1) = sc (?m1 ! 0)"
    unfolding m1 nth_Cons_0 pos by (simp add: cat_dup_def sc_def)
  have folded: "fold_catalog example_separation 1 [''first'', ''second''] [?row] (cat_dup, ''second'')
                  = [set_matching ''second'' 1 (?row, 0, Finite 0)]"
    unfolding fold_catalog_eq none by (simp add: pos near)
  show ?thesis
    unfolding m2 folded using same by (simp add: set_matching_def)
qed

text \<open>
  C3, amended. Let the matching radius be positive, and let the incoming catalogue
  \<open>c\<close>, folded under one of the names, have an object at row \<open>j\<close> at exactly the position
  of row \<open>k\<close> of the master catalogue (a position is at separation \<open>0\<close> from itself). Then
  the round of \<open>build_master_catalog\<close> appends no row for that object, and it leaves row
  \<open>k\<close> with its position, with the flag of \<open>c\<close> set and with the index of \<open>c\<close> equal to a
  row of \<open>c\<close> that is at no positive separation from the master row: that is row \<open>j\<close>
  whenever every other object of \<open>c\<close> is at a positive separation from it. The columns
  of the other names are unchanged in row \<open>k\<close>.
\<close>

theorem same_position_folded:
  assumes radius: "0 < matching_radius"
    and k: "k < length master_cat" and j: "j < length c"
    and same: "sc (c ! j) = sc (master_cat ! k)"
    and self: "separation (sc (master_cat ! k)) (sc (master_cat ! k)) = 0"
    and name: "name \<in> set names"
    and new: "fold_catalog separation matching_radius names master_cat (c, name) = new"
  shows "length master_cat \<le> length new
     \<and> (\<forall>row\<in>set (drop (length master_cat) new). name_idx_data row name \<noteq> Some (int j))
     \<and> name_data (new ! k) name = Some True
     \<and> (\<exists>i<length c. name_idx_data (new ! k) name = Some (int i)
            \<and> separation (sc (master_cat ! k)) (sc (c ! i)) \<le> 0)
     \<and> ((\<forall>i<length c. i \<noteq> j \<longrightarrow> 0 < separation (sc (master_cat ! k)) (sc (c ! i)))
          \<longrightarrow> name_idx_data (new ! k) name = Some (int j))
     \<and> sc (new ! k) = sc (master_cat ! k)
     \<and> (\<forall>other. other \<noteq> name \<longrightarrow>
            name_data (new ! k) other = name_data (master_cat ! k) other
          \<and> name_idx_data (new ! k) other = name_idx_data (master_cat ! k) other)"
proof -
  let ?p = "sc (master_cat ! k)"
  let ?ni = "nearest_index separation ?p (map sc c)"
  from j have ne: "map sc c \<noteq> []" by auto
  have ni: "?ni < length c"
    using nearest_index_less [OF ne, of separation ?p] by simp
  have "separation ?p (map sc c ! ?ni) \<le> separation ?p (map sc c ! j)"
    using nearest_index_min [of j "map sc c" separation ?p] j by simp
  with ni j same self have le0: "separation ?p (sc (c ! ?ni)) \<le> 0" by simp
  have near: "nearest separation ?p (map sc c) = (?ni, Finite (separation ?p (sc (c ! ?ni))))"
    using ne ni by (simp add: nearest_def)
  have len: "length master_cat \<le> length new"
    unfolding new [symmetric] by (simp add: fold_catalog_eq)
  have "new ! k = take (length master_cat) new ! k" using k by simp
  also have "\<dots> = set_matching name matching_radius
                      (master_cat ! k, nearest separation ?p (map sc c))"
    unfolding new [symmetric] fold_catalog_parts(1) using k by simp
  finally have row: "new ! k = set_matching name matching_radius
                      (master_cat ! k, ?ni, Finite (separation ?p (sc (c ! ?ni))))"
    unfolding near .
  have hit: "separation ?p (sc (c ! ?ni)) < matching_radius" using le0 radius by simp
  have flag: "name_data (new ! k) name = Some True"
    and idx: "name_idx_data (new ! k) name = Some (int ?ni)"
    and pos: "sc (new ! k) = ?p"
    and others: "\<forall>other. other \<noteq> name \<longrightarrow>
            name_data (new ! k) other = name_data (master_cat ! k) other
          \<and> name_idx_data (new ! k) other = name_idx_data (master_cat ! k) other"
    unfolding row using hit by (simp_all add: set_matching_def sc_def)
  have ex: "\<exists>i<length c. name_idx_data (new ! k) name = Some (int i)
            \<and> separation ?p (sc (c ! i)) \<le> 0"
    using ni idx le0 by blast
  have uniq: "(\<forall>i<length c. i \<noteq> j \<longrightarrow> 0 < separation ?p (sc (c ! i)))
          \<longrightarrow> name_idx_data (new ! k) name = Some (int j)"
  proof
    assume "\<forall>i<length c. i \<noteq> j \<longrightarrow> 0 < separation ?p (sc (c ! i))"
    with ni le0 have "?ni = j" by (metis not_le)
    with idx show "name_idx_data (new ! k) name = Some (int j)" by simp
  qed
  have appended: "\<forall>row\<in>set (drop (length master_cat) new). name_idx_data row name \<noteq> Some (int j)"
  proof
    fix row assume "row \<in> set (drop (length master_cat) new)"
    then obtain i x where ix: "(i, x) \<in> set (zip [0..<length c] (extract_cat_params c))"
      and unknown: "\<not> (master_cat \<noteq> [] \<and> in_radius separation master_cat matching_radius x)"
      and r: "row = new_row names name (i, x)"
      unfolding new [symmetric] fold_catalog_parts(2) by auto
    from ix have i: "i < length c" and x: "x = extract_cat_params c ! i"
      using zip_indexed_mem [of i x "extract_cat_params c"]
      by (simp_all add: length_extract_cat_params)
    have "i \<noteq> j"
    proof
      assume "i = j"
      with x j same have "sc x = ?p" by (simp add: nth_extract_cat_params)
      with k self radius have "\<exists>r'\<in>set master_cat. separation (sc x) (sc r') < matching_radius"
        by (metis nth_mem)
      then have "in_radius separation master_cat matching_radius x"
        by (simp add: in_radius_iff)
      with unknown k show False by auto
    qed
    then show "name_idx_data row name \<noteq> Some (int j)"
      unfolding r using new_row_data [OF name, of name "(i, x)"] by simp
  qed
  from len appended flag ex uniq pos others show ?thesis by blast
qed

theorem same_position_folded_witness:
  "length example_master
     \<le> length (fold_catalog example_separation 1 [''a'', ''b''] example_master (cat_b, ''b''))
   \<and> name_data (fold_catalog example_separation 1 [''a'', ''b''] example_master (cat_b, ''b'') ! 1) ''b''
       = Some True
   \<and> name_idx_data (fold_catalog example_separation 1 [''a'', ''b''] example_master (cat_b, ''b'') ! 1) ''b''
       = Some 0"
proof -
  have radius: "0 < (1::real)" by simp
  have k: "1 < length example_master" by (simp add: example_master_rows)
  have j: "0 < length cat_b" by (simp add: cat_b_def)
  have same: "sc (cat_b ! 0) = sc (example_master ! 1)"
    unfolding example_master_rows by (simp add: cat_b_def sc_def)
  have self: "example_separation (sc (example_master ! 1)) (sc (example_master ! 1)) = 0"
    by (simp add: example_separation_def)
  have name: "''b'' \<in> set [''a'', ''b'']" by simp
  have others: "\<forall>i<length cat_b. i \<noteq> 0 \<longrightarrow>
                  0 < example_separation (sc (example_master ! 1)) (sc (cat_b ! i))"
  proof (intro allI impI)
    fix i assume "i < length cat_b" and "i \<noteq> 0"
    then have "i = 1 \<or> i = 2" by (auto simp: cat_b_def)
    then show "0 < example_separation (sc (example_master ! 1)) (sc (cat_b ! i))"
      unfolding example_master_rows
      by (auto simp: cat_b_def sc_def example_separation_def)
  qed
  from same_position_folded
         [where separation = example_separation and master_cat = example_master and c = cat_b
            and k = 1 and j = 0 and name = "''b''" and names = "[''a'', ''b'']"
            and matching_radius = 1,
          OF radius k j same self name refl] others
  show ?thesis by simp
qed

section \<open>The empty reference set\<close>


section \<open>The flag and the index of a row\<close>

lemma consistent_iff:
  "consistent F names row \<longleftrightarrow>
     (\<forall>s\<in>set names. \<exists>present idx.
         name_data row s = Some present \<and> name_idx_data row s = Some idx
         \<and> (idx = - 1) = (\<not> present)
         \<and> (present \<longrightarrow>
              (\<exists>cn\<in>set F. snd cn = s \<and> 0 \<le> idx \<and> idx < int (length (fst cn)))))"
proof -
  have one: "(case (a, b) of
                (Some present, Some idx) \<Rightarrow>
                   (idx = - 1) = (\<not> present)
                   \<and> (\<not> present
                      \<or> list_ex (\<lambda>cn. snd cn = s \<and> 0 \<le> idx \<and> idx < int (length (fst cn))) F)
              | _ \<Rightarrow> False)
             \<longleftrightarrow> (\<exists>present idx. a = Some present \<and> b = Some idx
                   \<and> (idx = - 1) = (\<not> present)
                   \<and> (present \<longrightarrow>
                      (\<exists>cn\<in>set F. snd cn = s \<and> 0 \<le> idx \<and> idx < int (length (fst cn)))))"
    for a :: "bool option" and b :: "int option" and s
    by (cases a; cases b) (auto simp: list_ex_iff)
  show ?thesis
    unfolding consistent_def list_all_iff one ..
qed

lemma consistent_append:
  assumes "consistent F names row"
  shows "consistent (F @ G) names row"
  unfolding consistent_iff
proof
  fix s assume "s \<in> set names"
  with assms [unfolded consistent_iff] obtain present idx
    where d: "name_data row s = Some present" and x: "name_idx_data row s = Some idx"
      and m: "(idx = - 1) = (\<not> present)"
      and v: "present \<longrightarrow>
                (\<exists>cn\<in>set F. snd cn = s \<and> 0 \<le> idx \<and> idx < int (length (fst cn)))"
    by blast
  from v have "present \<longrightarrow>
                (\<exists>cn\<in>set (F @ G). snd cn = s \<and> 0 \<le> idx \<and> idx < int (length (fst cn)))"
    by auto
  with d x m show "\<exists>present idx.
         name_data row s = Some present \<and> name_idx_data row s = Some idx
       \<and> (idx = - 1) = (\<not> present)
       \<and> (present \<longrightarrow>
            (\<exists>cn\<in>set (F @ G). snd cn = s \<and> 0 \<le> idx \<and> idx < int (length (fst cn))))"
    by blast
qed

lemma consistent_new_row:
  assumes "fst ix < length c"
  shows "consistent (F @ [(c, name)]) names (new_row names name ix)"
  unfolding consistent_iff
proof
  fix s assume s: "s \<in> set names"
  show "\<exists>present idx.
         name_data (new_row names name ix) s = Some present
       \<and> name_idx_data (new_row names name ix) s = Some idx
       \<and> (idx = - 1) = (\<not> present)
       \<and> (present \<longrightarrow>
            (\<exists>cn\<in>set (F @ [(c, name)]). snd cn = s \<and> 0 \<le> idx \<and> idx < int (length (fst cn))))"
    using new_row_data [OF s, of name ix] assms by auto
qed

lemma nearest_index_in_range:
  "sep_less (snd (nearest d q refs)) r \<Longrightarrow> fst (nearest d q refs) < length refs"
  using nearest_index_less [of refs d q] by (auto simp: nearest_def split: if_splits)

lemma consistent_set_matching:
  assumes "consistent F names row" and "sep_less s r \<Longrightarrow> i < length c"
  shows "consistent (F @ [(c, name)]) names (set_matching name r (row, i, s))"
proof (cases "sep_less s r")
  case False
  with consistent_append [OF assms(1)] show ?thesis by (simp add: set_matching_def)
next
  case True
  with assms(2) have i: "i < length c" by simp
  have old: "consistent (F @ [(c, name)]) names row"
    by (rule consistent_append [OF assms(1)])
  show ?thesis
    unfolding consistent_iff
  proof
    fix t assume t: "t \<in> set names"
    let ?row = "set_matching name r (row, i, s)"
    show "\<exists>present idx.
         name_data ?row t = Some present \<and> name_idx_data ?row t = Some idx
       \<and> (idx = - 1) = (\<not> present)
       \<and> (present \<longrightarrow>
            (\<exists>cn\<in>set (F @ [(c, name)]). snd cn = t \<and> 0 \<le> idx \<and> idx < int (length (fst cn))))"
    proof (cases "t = name")
      case True
      with \<open>sep_less s r\<close> i show ?thesis by (auto simp: set_matching_def)
    next
      case False
      with \<open>sep_less s r\<close> have "name_data ?row t = name_data row t"
        and "name_idx_data ?row t = name_idx_data row t"
        by (simp_all add: set_matching_def)
      with old [unfolded consistent_iff] t show ?thesis by simp
    qed
  qed
qed

lemma fold_catalog_consistent:
  assumes "\<forall>row\<in>set master. consistent F names row"
  shows "\<forall>row\<in>set (fold_catalog d r names master cn). consistent (F @ [cn]) names row"
proof -
  obtain c name where cn: "cn = (c, name)" by (cases cn)
  have up: "consistent (F @ [(c, name)]) names
              (set_matching name r (row, nearest d (sc row) (map sc c)))"
    if "row \<in> set master" for row
  proof -
    obtain i s where n: "nearest d (sc row) (map sc c) = (i, s)"
      by (cases "nearest d (sc row) (map sc c)")
    have "sep_less s r \<Longrightarrow> i < length c"
      using nearest_index_in_range [of d "sc row" "map sc c" r] n by simp
    with assms that show ?thesis
      unfolding n by (intro consistent_set_matching) auto
  qed
  have new: "consistent (F @ [(c, name)]) names (new_row names name ix)"
    if "ix \<in> set (zip [0..<length c] (extract_cat_params c))" for ix
  proof -
    obtain a b where ix: "ix = (a, b)" by (cases ix)
    from that have "a \<in> set [0..<length c]"
      unfolding ix by (rule set_zip_leftD)
    then show ?thesis unfolding ix by (intro consistent_new_row) simp
  qed
  show ?thesis
    unfolding cn fold_catalog_eq using up new by auto
qed

lemma foldl_consistent:
  "\<forall>row\<in>set init. consistent F names row \<Longrightarrow>
   \<forall>row\<in>set (foldl (fold_catalog d r names) init zs). consistent (F @ zs) names row"
proof (induction zs arbitrary: init F)
  case Nil
  then show ?case by simp
next
  case (Cons z zs)
  from fold_catalog_consistent [OF Cons.prems, of d r z]
  have "\<forall>row\<in>set (fold_catalog d r names init z). consistent (F @ [z]) names row" .
  from Cons.IH [OF this] show ?case by simp
qed

text \<open>
  C9. After every number \<open>k\<close> of rounds of \<open>build_master_catalog\<close>, and so in the table
  it returns, every row has for every name a flag and an index, the index is \<open>-1\<close> if and
  only if the flag is \<open>False\<close>, and where the flag is \<open>True\<close> the index is a row number,
  from \<open>0\<close>, of a catalogue folded under that name.
\<close>

theorem flag_and_index_consistent:
  "(\<forall>row\<in>set (master_after separation cats names matching_radius k).
       consistent (take k (zip cats names)) names row)
   \<and> (\<forall>m. build_master_catalog separation cats names matching_radius = Inr m \<longrightarrow>
          (\<forall>row\<in>set m. consistent (zip cats names) names row))"
proof -
  have e: "\<forall>row\<in>set ([] :: master_row list). consistent [] names row" by simp
  from foldl_consistent [OF e, of separation matching_radius]
  show ?thesis
    by (auto simp: master_after_def build_master_catalog_def split: if_splits)
qed

theorem flag_and_index_consistent_witness:
  "master_after example_separation [cat_a, cat_b] [''a'', ''b''] 1 1 \<noteq> []
   \<and> consistent (take 1 (zip [cat_a, cat_b] [''a'', ''b''])) [''a'', ''b'']
        (master_after example_separation [cat_a, cat_b] [''a'', ''b''] 1 1 ! 0)"
proof -
  have l: "length (master_after example_separation [cat_a, cat_b] [''a'', ''b''] 1 1) = 2"
    using example_master_rows(1) by (simp add: example_master_def)
  then have "master_after example_separation [cat_a, cat_b] [''a'', ''b''] 1 1 ! 0
               \<in> set (master_after example_separation [cat_a, cat_b] [''a'', ''b''] 1 1)"
    by (intro nth_mem) simp
  with flag_and_index_consistent [of example_separation "[cat_a, cat_b]" "[''a'', ''b'']" 1 1] l
  show ?thesis by auto
qed

end
